theory Spec2Isabelle
  imports Main
begin

section \<open>Data model\<close>

text \<open>
  The entries that \<open>get_pdf_outline_info\<close> appends are dictionaries with the fixed keys
  \<open>title\<close>, \<open>page_index\<close> and \<open>full_path_name\<close>. The page index is what
  \<open>reader.get_page_number\<close> returned: an integer or \<open>None\<close>. The caller
  (\<open>split_pdf_by_chapters\<close>) removes the \<open>None\<close> entries before it calls
  \<open>calculate_page_ranges\<close>, so the type of the page index is a parameter:
  \<open>int option\<close> out of the flattener, \<open>int\<close> into the range calculator.
\<close>

record 'p bookmark =
  title :: string
  page_index :: 'p
  full_path_name :: string

text \<open>
  The dictionaries that \<open>calculate_page_ranges\<close> appends: keys \<open>name\<close>,
  \<open>full_path_name\<close>, \<open>start_page\<close>, \<open>end_page\<close> (1-based, Python integers).
\<close>

record page_section =
  name :: string
  sec_full_path_name :: string
  start_page :: int
  end_page :: int

section \<open>The range calculator: \<open>calculate_page_ranges\<close>\<close>

text \<open>
  One iteration of \<open>for i, item in enumerate(outline_info)\<close> on the sorted list: the
  sections that iteration \<open>i\<close> appends (one or none). \<open>item.get("full_path_name", title)\<close>
  reads the key, which every entry of the flattener has.
\<close>

definition section_at :: "int bookmark list \<Rightarrow> int \<Rightarrow> nat \<Rightarrow> page_section list" where
  "section_at outline_info total_pages i =
     (let item = outline_info ! i;
          start_index = page_index item;
          end_index = (if i + 1 < length outline_info
                       then page_index (outline_info ! (i + 1)) - 1
                       else total_pages - 1)
      in if start_index \<le> end_index then
           [\<lparr>name = title item, sec_full_path_name = full_path_name item,
             start_page = start_index + 1, end_page = end_index + 1\<rparr>]
         else if i = length outline_info - 1 then
           [\<lparr>name = title item, sec_full_path_name = full_path_name item,
             start_page = start_index + 1, end_page = total_pages\<rparr>]
         else [])"

text \<open>
  \<open>outline_info.sort(key=lambda x: x["page_index"])\<close> is a stable sort, as \<open>sort_key\<close> is;
  the loop then runs over the indices of the sorted list in order.
\<close>

definition calculate_page_ranges :: "int bookmark list \<Rightarrow> int \<Rightarrow> page_section list" where
  "calculate_page_ranges outline_info total_pages =
     (let sorted_info = sort_key page_index outline_info
      in concat (map (section_at sorted_info total_pages) [0..<length sorted_info]))"

text \<open>
  The same loop read off the list itself: the head is the current item, the second element
  (when there is one) is \<open>outline_info[i+1]\<close>. Used in the proofs only.
\<close>

fun ranges_of :: "int bookmark list \<Rightarrow> int \<Rightarrow> page_section list" where
  "ranges_of [] total_pages = []"
| "ranges_of [item] total_pages =
     [\<lparr>name = title item, sec_full_path_name = full_path_name item,
       start_page = page_index item + 1, end_page = total_pages\<rparr>]"
| "ranges_of (item # nxt # rest) total_pages =
     (if page_index item \<le> page_index nxt - 1 then
        [\<lparr>name = title item, sec_full_path_name = full_path_name item,
          start_page = page_index item + 1, end_page = page_index nxt - 1 + 1\<rparr>]
      else [])
     @ ranges_of (nxt # rest) total_pages"



text \<open>
  Adjacent sections meet: each section ends one page before the next one starts and starts
  strictly before it, and the final section ends at \<open>total_pages\<close>.
\<close>

fun chained :: "int \<Rightarrow> page_section list \<Rightarrow> bool" where
  "chained total_pages [] = True"
| "chained total_pages [s] = (end_page s = total_pages)"
| "chained total_pages (s # t # rest) =
     (end_page s = start_page t - 1 \<and> start_page s < start_page t \<and>
      chained total_pages (t # rest))"

section \<open>The outline flattener: \<open>get_pdf_outline_info\<close>\<close>

text \<open>
  \<open>reader.outline\<close> is a list whose items are \<open>Destination\<close> objects (a title and a page
  reference) and nested lists: the list that follows a destination holds its children.
  \<open>reader.get_page_number(item.page)\<close> returns an integer or \<open>None\<close>, or raises; the
  exception is the \<open>Inl\<close> branch, carrying its text. \<open>reader.pages\<close> is the page list.
\<close>

type_synonym page_ref = nat

record 'pg pdf_reader =
  pages :: "'pg list"
  get_page_number :: "page_ref \<Rightarrow> string + int option"

datatype outline_item = Destination string page_ref | Sublist "outline_item list"

text \<open>
  The two warnings the program prints: a bookmark skipped by the \<open>except\<close> handler (title
  and exception text) and a section skipped for its page range (name, start and end page).
\<close>

datatype diagnostic = SkippedBookmark string string | SkippedSection string int int

text \<open>
  The \<open>while i < len(outline)\<close> loop as recursion on the items from index \<open>i\<close> on. The
  result is \<open>outline_info\<close> and the warnings printed, in order.
  \<^item> An item that is not a \<open>Destination\<close> is passed over (\<open>i += 1\<close>).
  \<^item> When \<open>get_page_number\<close> raises, nothing has been appended; the handler prints the
    warning and only the final \<open>i += 1\<close> runs, so the loop goes on at the next item,
    which is the child list if there is one.
  \<^item> Otherwise the entry is appended; if the next item is a list it is consumed
    (\<open>i += 1\<close> inside the \<open>if\<close>), after being flattened when the level allows.
\<close>

fun get_pdf_outline_info ::
  "outline_item list \<Rightarrow> 'pg pdf_reader \<Rightarrow> int \<Rightarrow> int \<Rightarrow> string \<Rightarrow>
     int option bookmark list \<times> diagnostic list" where
  "get_pdf_outline_info [] reader current_level max_level parent_path = ([], [])"
| "get_pdf_outline_info (Sublist sub # rest) reader current_level max_level parent_path =
     get_pdf_outline_info rest reader current_level max_level parent_path"
| "get_pdf_outline_info (Destination t pg # rest) reader current_level max_level parent_path =
     (let fp = (if parent_path \<noteq> [] then parent_path @ '' - '' @ t else t)
      in case get_page_number reader pg of
           Inl e \<Rightarrow>
             (let (info, log) =
                    get_pdf_outline_info rest reader current_level max_level parent_path
              in (info, SkippedBookmark t e # log))
         | Inr p \<Rightarrow>
             (case rest of
                Sublist sub_outline # rest' \<Rightarrow>
                  (let (sub_info, sub_log) =
                         (if max_level = 0 \<or> current_level < max_level
                          then get_pdf_outline_info sub_outline reader (current_level + 1)
                                 max_level fp
                          else ([], []));
                       (info, log) =
                         get_pdf_outline_info rest' reader current_level max_level parent_path
                   in (\<lparr>title = t, page_index = p, full_path_name = fp\<rparr> # sub_info @ info,
                       sub_log @ log))
              | _ \<Rightarrow>
                  (let (info, log) =
                         get_pdf_outline_info rest reader current_level max_level parent_path
                   in (\<lparr>title = t, page_index = p, full_path_name = fp\<rparr> # info, log))))"

subsection \<open>The outline as a tree\<close>

text \<open>
  An outline node: title, page reference, children in order. \<open>encode_outline\<close> lays a
  forest out the way \<open>reader.outline\<close> does: each node's destination, followed by the list
  of its children when it has any.
\<close>

datatype outline_node = OutlineNode string page_ref "outline_node list"

fun encode_node :: "outline_node \<Rightarrow> outline_item list" where
  "encode_node (OutlineNode t pg kids) =
     Destination t pg # (if kids = [] then [] else [Sublist (concat (map encode_node kids))])"

definition encode_outline :: "outline_node list \<Rightarrow> outline_item list" where
  "encode_outline nodes = concat (map encode_node nodes)"

fun node_refs :: "outline_node \<Rightarrow> page_ref list" where
  "node_refs (OutlineNode t pg kids) = pg # concat (map node_refs kids)"

text \<open>
  Depth-first pre-order flattening of the tree as the specification words it: a node's
  entry, then its children's entries when the depth limit allows, siblings in order. In
  \<open>preorder_node\<close> the path name is the bare title when the parent's path is empty; in
  \<open>preorder_node_by_level\<close> it is the bare title exactly for a top-level node (level 1).
\<close>

fun preorder_node ::
  "(page_ref \<Rightarrow> int option) \<Rightarrow> int \<Rightarrow> int \<Rightarrow> string \<Rightarrow> outline_node \<Rightarrow>
     int option bookmark list" where
  "preorder_node resolve depth_limit current_level parent (OutlineNode t pg kids) =
     (let fp = (if parent = [] then t else parent @ '' - '' @ t)
      in \<lparr>title = t, page_index = resolve pg, full_path_name = fp\<rparr> #
         (if kids \<noteq> [] \<and> (depth_limit = 0 \<or> current_level < depth_limit)
          then concat (map (preorder_node resolve depth_limit (current_level + 1) fp) kids)
          else []))"

definition preorder ::
  "(page_ref \<Rightarrow> int option) \<Rightarrow> int \<Rightarrow> int \<Rightarrow> string \<Rightarrow> outline_node list \<Rightarrow>
     int option bookmark list" where
  "preorder resolve depth_limit current_level parent nodes =
     concat (map (preorder_node resolve depth_limit current_level parent) nodes)"

fun preorder_node_by_level ::
  "(page_ref \<Rightarrow> int option) \<Rightarrow> int \<Rightarrow> int \<Rightarrow> string \<Rightarrow> outline_node \<Rightarrow>
     int option bookmark list" where
  "preorder_node_by_level resolve depth_limit current_level parent (OutlineNode t pg kids) =
     (let fp = (if current_level = 1 then t else parent @ '' - '' @ t)
      in \<lparr>title = t, page_index = resolve pg, full_path_name = fp\<rparr> #
         (if kids \<noteq> [] \<and> (depth_limit = 0 \<or> current_level < depth_limit)
          then concat (map (preorder_node_by_level resolve depth_limit (current_level + 1) fp)
                        kids)
          else []))"

definition preorder_by_level ::
  "(page_ref \<Rightarrow> int option) \<Rightarrow> int \<Rightarrow> int \<Rightarrow> string \<Rightarrow> outline_node list \<Rightarrow>
     int option bookmark list" where
  "preorder_by_level resolve depth_limit current_level parent nodes =
     concat (map (preorder_node_by_level resolve depth_limit current_level parent) nodes)"

text \<open>An item list that does not begin with a child list.\<close>

fun no_sublist_head :: "outline_item list \<Rightarrow> bool" where
  "no_sublist_head (Sublist sub # rest) = False"
| "no_sublist_head items = True"

section \<open>The split executor: \<open>perform_pdf_split\<close>\<close>

text \<open>
  \<open>str(n)\<close> for a non-negative integer, and the format \<open>{n:0{width}d}\<close>: the decimal
  digits, padded on the left with zeros up to the width.
\<close>

definition digit_char :: "nat \<Rightarrow> char" where
  "digit_char d = ''0123456789'' ! d"

function str_nat :: "nat \<Rightarrow> string" where
  "str_nat n =
     (if n < 10 then [digit_char n] else str_nat (n div 10) @ [digit_char (n mod 10)])"
  by pat_completeness auto
termination
  by (relation "measure id") auto

declare str_nat.simps [simp del]

definition zero_pad :: "nat \<Rightarrow> string \<Rightarrow> string" where
  "zero_pad width s = replicate (width - length s) CHR ''0'' @ s"

text \<open>
  The character class of \<open>re.sub(r'[\\/:*?"<>|]', '', name_to_clean)\<close>: backslash, slash,
  colon, asterisk, question mark, double quote, angle brackets, bar.
\<close>

definition illegal_chars :: "char list" where
  "illegal_chars =
     [CHR 0x5C, CHR ''/'', CHR '':'', CHR ''*'', CHR ''?'', CHR 0x22, CHR ''<'', CHR ''>'',
      CHR ''|'']"

definition clean_name :: "string \<Rightarrow> string" where
  "clean_name name_to_clean = filter (\<lambda>c. c \<notin> set illegal_chars) name_to_clean"

text \<open>
  One iteration of \<open>for i, section in enumerate(sections)\<close> up to the point where the
  file is opened: a skipped section (\<open>Inl\<close>, the warning) or the file to write (\<open>Inr\<close>,
  its name and the pages added to the writer). Every section made by
  \<open>calculate_page_ranges\<close> has the key \<open>full_path_name\<close>.
\<close>

definition split_section ::
  "'pg pdf_reader \<Rightarrow> bool \<Rightarrow> int \<Rightarrow> nat \<Rightarrow> nat \<Rightarrow> page_section \<Rightarrow>
     diagnostic + string \<times> 'pg list" where
  "split_section reader add_sequence max_level num_digits i sec =
     (let start_page_index = start_page sec - 1;
          end_page_index = end_page sec - 1
      in if start_page_index < 0 \<or> end_page_index \<ge> int (length (pages reader))
            \<or> start_page_index > end_page_index
         then Inl (SkippedSection (sec_full_path_name sec) (start_page sec) (end_page sec))
         else
           (let added = map (\<lambda>page_num. pages reader ! nat page_num)
                          [start_page_index..end_page_index];
                name_to_clean = (if max_level \<noteq> 1 then sec_full_path_name sec else name sec);
                cleaned_name = clean_name name_to_clean;
                output_filename =
                  (if add_sequence
                   then (zero_pad num_digits (str_nat (i + 1)) @ ''_'') @ cleaned_name @ ''.pdf''
                   else cleaned_name @ ''.pdf'')
            in Inr (output_filename, added)))"

text \<open>
  What the file system does to the calls the function makes: \<open>os.makedirs(output_dir,
  exist_ok=True)\<close> may raise, and so may \<open>open(output_filepath, 'wb')\<close> or
  \<open>writer.write(output_pdf)\<close> for a given file name (\<open>Some\<close> the exception text).
\<close>

record file_system =
  makedirs_error :: "string option"
  write_error :: "string \<Rightarrow> string option"

text \<open>
  The loop \<open>for i, section in enumerate(sections)\<close> from index \<open>i\<close> on. A section with an
  invalid range is skipped (\<open>continue\<close>) and the loop goes on. The loop body has no
  \<open>try\<close>: when writing a file raises, the exception leaves the function, so no later
  section is attempted. The result is the outcomes of the iterations that completed, in
  order, and the exception if there was one.
\<close>

fun split_loop ::
  "'pg pdf_reader \<Rightarrow> file_system \<Rightarrow> bool \<Rightarrow> int \<Rightarrow> nat \<Rightarrow> nat \<Rightarrow> page_section list \<Rightarrow>
     (diagnostic + string \<times> 'pg list) list \<times> string option" where
  "split_loop reader fs add_sequence max_level num_digits i [] = ([], None)"
| "split_loop reader fs add_sequence max_level num_digits i (sec # rest) =
     (case split_section reader add_sequence max_level num_digits i sec of
        Inl warning \<Rightarrow>
          (let (outs, err) =
                 split_loop reader fs add_sequence max_level num_digits (i + 1) rest
           in (Inl warning # outs, err))
      | Inr written \<Rightarrow>
          (case write_error fs (fst written) of
             Some e \<Rightarrow> ([], Some e)
           | None \<Rightarrow>
               (let (outs, err) =
                      split_loop reader fs add_sequence max_level num_digits (i + 1) rest
                in (Inr written # outs, err))))"

text \<open>
  \<open>perform_pdf_split(reader, sections, output_dir, add_sequence, max_level)\<close>, with the
  file system in the place of the output directory: the directory is made first, then
  \<open>num_digits = len(str(len(sections)))\<close> and the loop from index 0.
\<close>

definition perform_pdf_split ::
  "'pg pdf_reader \<Rightarrow> page_section list \<Rightarrow> file_system \<Rightarrow> bool \<Rightarrow> int \<Rightarrow>
     (diagnostic + string \<times> 'pg list) list \<times> string option" where
  "perform_pdf_split reader sections fs add_sequence max_level =
     (case makedirs_error fs of
        Some e \<Rightarrow> ([], Some e)
      | None \<Rightarrow>
          (let total_sections = length sections;
               num_digits = length (str_nat total_sections)
           in split_loop reader fs add_sequence max_level num_digits 0 sections))"

text \<open>Reading a digit string back as a number.\<close>

definition digit_value :: "char \<Rightarrow> nat" where
  "digit_value c = of_char c - 48"

definition dec_value :: "string \<Rightarrow> nat" where
  "dec_value s = foldl (\<lambda>acc c. 10 * acc + digit_value c) 0 s"

section \<open>Worked inputs\<close>

text \<open>Three bookmarks, the first two on the same page.\<close>

definition dup_example :: "int bookmark list" where
  "dup_example =
     [\<lparr>title = ''A'', page_index = 3, full_path_name = ''A''\<rparr>,
      \<lparr>title = ''B'', page_index = 3, full_path_name = ''B''\<rparr>,
      \<lparr>title = ''C'', page_index = 7, full_path_name = ''C''\<rparr>]"



text \<open>A 10-page reader whose pages are numbered 100 to 109 and whose resolver never fails.\<close>

definition resolve_all :: "page_ref \<Rightarrow> string + int option" where
  "resolve_all r = Inr (Some (int r))"

definition ten_pages :: "nat pdf_reader" where
  "ten_pages = \<lparr>pages = [100, 101, 102, 103, 104, 105, 106, 107, 108, 109],
                get_page_number = resolve_all\<rparr>"

text \<open>A file system on which every call succeeds.\<close>

definition no_write_error :: "string \<Rightarrow> string option" where
  "no_write_error output_filename = None"

definition working_fs :: file_system where
  "working_fs = \<lparr>makedirs_error = None, write_error = no_write_error\<rparr>"

text \<open>Two sections whose names hold characters that are illegal in file names.\<close>

definition named_sections :: "page_section list" where
  "named_sections =
     [\<lparr>name = ''Intro'', sec_full_path_name = ''Intro'', start_page = 1, end_page = 3\<rparr>,
      \<lparr>name = ''Q: why?'', sec_full_path_name = ''Part <1> - Q: why?'', start_page = 4,
        end_page = 10\<rparr>]"

text \<open>The page index a reference resolves to in the examples: its own number.\<close>

definition index_of :: "page_ref \<Rightarrow> int option" where
  "index_of r = Some (int r)"

text \<open>A reader whose resolver raises for reference 7, and an outline that uses it.\<close>

definition fails_on_7 :: "page_ref \<Rightarrow> string + int option" where
  "fails_on_7 r = (if r = 7 then Inl ''no such page'' else Inr (index_of r))"

definition broken_reader :: "nat pdf_reader" where
  "broken_reader = \<lparr>pages = [100, 101, 102, 103, 104, 105, 106, 107], get_page_number = fails_on_7\<rparr>"

definition broken_outline :: "outline_node list" where
  "broken_outline = [OutlineNode ''A'' 7 [OutlineNode ''A.1'' 2 []], OutlineNode ''B'' 5 []]"

text \<open>The same reader with a resolver that returns \<open>None\<close> for reference 7.\<close>

definition none_on_7 :: "page_ref \<Rightarrow> string + int option" where
  "none_on_7 r = (if r = 7 then Inr None else Inr (index_of r))"

definition unresolving_reader :: "nat pdf_reader" where
  "unresolving_reader =
     \<lparr>pages = [100, 101, 102, 103, 104, 105, 106, 107], get_page_number = none_on_7\<rparr>"

text \<open>The nested scenario: A (page index 0) with child A.1 (2), then B (5).\<close>

definition nested_outline :: "outline_node list" where
  "nested_outline = [OutlineNode ''A'' 0 [OutlineNode ''A.1'' 2 []], OutlineNode ''B'' 5 []]"

text \<open>A top-level bookmark with an empty title and one child.\<close>

definition untitled_outline :: "outline_node list" where
  "untitled_outline = [OutlineNode [] 0 [OutlineNode ''A'' 2 []]]"

section \<open>Properties of the range calculator\<close>

lemma section_at_Cons_Suc:
  "i < length xs \<Longrightarrow> section_at (x # xs) tp (Suc i) = section_at xs tp i"
  by (cases xs) (auto simp: section_at_def Let_def)

lemma upt_0_Suc_shift: "[0..<Suc n] = 0 # map Suc [0..<n]"
  by (simp only: map_Suc_upt upt_conv_Cons [OF zero_less_Suc])

lemma loop_Cons:
  "concat (map (section_at (x # xs) tp) [0..<Suc (length xs)]) =
     section_at (x # xs) tp 0 @ concat (map (section_at xs tp) [0..<length xs])"
proof -
  have "map (section_at (x # xs) tp) (map Suc [0..<length xs]) =
      map (section_at xs tp) [0..<length xs]"
    by (simp add: section_at_Cons_Suc)
  then show ?thesis
    by (simp only: upt_0_Suc_shift list.map concat.simps)
qed

lemma loop_ranges_of:
  "concat (map (section_at xs tp) [0..<length xs]) = ranges_of xs tp"
proof (induction xs tp rule: ranges_of.induct)
  case (1 tp)
  show ?case by simp
next
  case (2 item tp)
  show ?case by (simp add: section_at_def Let_def)
next
  case (3 item nxt rest tp)
  have "concat (map (section_at (item # nxt # rest) tp) [0..<Suc (length (nxt # rest))]) =
      section_at (item # nxt # rest) tp 0 @ ranges_of (nxt # rest) tp"
    using 3 by (simp only: loop_Cons)
  moreover have "section_at (item # nxt # rest) tp 0 =
      (if page_index item \<le> page_index nxt - 1 then
        [\<lparr>name = title item, sec_full_path_name = full_path_name item,
          start_page = page_index item + 1, end_page = page_index nxt - 1 + 1\<rparr>]
      else [])"
    by (simp add: section_at_def Let_def)
  ultimately show ?case
    by (simp only: ranges_of.simps list.size(4)) simp
qed

lemma calculate_page_ranges_eq:
  "calculate_page_ranges bs tp = ranges_of (sort_key page_index bs) tp"
  by (simp add: calculate_page_ranges_def Let_def loop_ranges_of)

lemma ranges_of_last:
  "xs \<noteq> [] \<Longrightarrow> ranges_of xs tp \<noteq> [] \<and>
     last (ranges_of xs tp) =
       \<lparr>name = title (last xs), sec_full_path_name = full_path_name (last xs),
        start_page = page_index (last xs) + 1, end_page = tp\<rparr>"
  by (induction xs tp rule: ranges_of.induct) auto

lemma section_at_last:
  "xs \<noteq> [] \<Longrightarrow> section_at xs tp (length xs - 1) =
     [\<lparr>name = title (last xs), sec_full_path_name = full_path_name (last xs),
       start_page = page_index (last xs) + 1, end_page = tp\<rparr>]"
  by (simp add: section_at_def Let_def last_conv_nth)

text \<open>
  Claim C1. For a non-empty bookmark list the last bookmark in sorted page order always
  gets a section: the last iteration of the loop appends exactly one section, it is the last
  section of the result, its \<open>start_page\<close> is the bookmark's \<open>page_index + 1\<close> and its
  \<open>end_page\<close> is \<open>total_pages\<close>, whether the normal rule (\<open>start_index \<le> total_pages - 1\<close>)
  or the last-item rule applies. This holds for every \<open>total_pages\<close>, so in particular for
  \<open>total_pages \<ge> 1\<close>. A 10-page document with one bookmark at \<open>page_index\<close> 9 yields the
  single section 10-10.
\<close>

theorem last_bookmark_always_emitted:
  assumes "bs \<noteq> []"
  shows "section_at (sort_key page_index bs) total_pages (length (sort_key page_index bs) - 1) =
           [\<lparr>name = title (last (sort_key page_index bs)),
             sec_full_path_name = full_path_name (last (sort_key page_index bs)),
             start_page = page_index (last (sort_key page_index bs)) + 1,
             end_page = total_pages\<rparr>]
         \<and> calculate_page_ranges bs total_pages \<noteq> []
         \<and> last (calculate_page_ranges bs total_pages) =
           \<lparr>name = title (last (sort_key page_index bs)),
            sec_full_path_name = full_path_name (last (sort_key page_index bs)),
            start_page = page_index (last (sort_key page_index bs)) + 1,
            end_page = total_pages\<rparr>
         \<and> calculate_page_ranges [\<lparr>title = t, page_index = 9, full_path_name = f\<rparr>] 10 =
           [\<lparr>name = t, sec_full_path_name = f, start_page = 10, end_page = 10\<rparr>]"
proof -
  let ?xs = "sort_key page_index bs"
  have ne: "?xs \<noteq> []"
    using assms by (metis length_sort length_0_conv)
  have "calculate_page_ranges [\<lparr>title = t, page_index = 9, full_path_name = f\<rparr>] 10 =
      [\<lparr>name = t, sec_full_path_name = f, start_page = 10, end_page = 10\<rparr>]"
    by (simp add: calculate_page_ranges_eq)
  with section_at_last [OF ne] ranges_of_last [OF ne] show ?thesis
    by (simp only: calculate_page_ranges_eq simp_thms)
qed

theorem last_bookmark_always_emitted_witness:
  "[\<lparr>title = ''Intro'', page_index = 0, full_path_name = ''Intro''\<rparr>,
    \<lparr>title = ''Late'', page_index = 12, full_path_name = ''Late''\<rparr>] \<noteq> []
   \<and> last (calculate_page_ranges
       [\<lparr>title = ''Intro'', page_index = 0, full_path_name = ''Intro''\<rparr>,
        \<lparr>title = ''Late'', page_index = 12, full_path_name = ''Late''\<rparr>] 10) =
     \<lparr>name = ''Late'', sec_full_path_name = ''Late'', start_page = 13, end_page = 10\<rparr>"
  using last_bookmark_always_emitted
    [of "[\<lparr>title = ''Intro'', page_index = 0, full_path_name = ''Intro''\<rparr>,
          \<lparr>title = ''Late'', page_index = 12, full_path_name = ''Late''\<rparr>]" 10]
  by simp


lemma ranges_of_hd:
  "sorted (map page_index (x # xs)) \<Longrightarrow>
     start_page (hd (ranges_of (x # xs) tp)) = page_index x + 1"
proof (induction xs arbitrary: x)
  case Nil
  show ?case by simp
next
  case (Cons y ys)
  from Cons.prems have le: "page_index x \<le> page_index y"
    and srt: "sorted (map page_index (y # ys))" by simp_all
  show ?case
  proof (cases "page_index x \<le> page_index y - 1")
    case True
    then show ?thesis by simp
  next
    case False
    with le have "page_index x = page_index y" by simp
    with False Cons.IH [OF srt] show ?thesis by simp
  qed
qed

lemma ranges_of_Cons_ne: "ranges_of (x # xs) tp \<noteq> []"
  using ranges_of_last [of "x # xs" tp] by simp

lemma chained_Cons:
  "ss \<noteq> [] \<Longrightarrow> chained tp (s # ss) =
     (end_page s = start_page (hd ss) - 1 \<and> start_page s < start_page (hd ss) \<and> chained tp ss)"
  by (cases ss) simp_all

lemma ranges_of_chained:
  "sorted (map page_index xs) \<Longrightarrow> chained tp (ranges_of xs tp)"
proof (induction xs tp rule: ranges_of.induct)
  case (1 tp)
  show ?case by simp
next
  case (2 item tp)
  show ?case by simp
next
  case (3 item nxt rest tp)
  from "3.prems" have srt: "sorted (map page_index (nxt # rest))" by simp
  have ch: "chained tp (ranges_of (nxt # rest) tp)" using "3.IH" srt by simp
  have hd: "start_page (hd (ranges_of (nxt # rest) tp)) = page_index nxt + 1"
    by (rule ranges_of_hd [OF srt])
  show ?case
    using ch hd by (simp add: chained_Cons [OF ranges_of_Cons_ne])
qed

lemma chained_nth:
  "chained tp ss \<Longrightarrow> Suc i < length ss \<Longrightarrow>
     end_page (ss ! i) = start_page (ss ! Suc i) - 1 \<and> start_page (ss ! i) < start_page (ss ! Suc i)"
proof (induction tp ss arbitrary: i rule: chained.induct)
  case (3 tp s t rest)
  then show ?case by (cases i) simp_all
qed simp_all

lemma chained_last: "chained tp ss \<Longrightarrow> ss \<noteq> [] \<Longrightarrow> end_page (last ss) = tp"
  by (induction tp ss rule: chained.induct) simp_all

lemma chained_sorted: "chained tp ss \<Longrightarrow> sorted_wrt (<) (map start_page ss)"
proof -
  assume ch: "chained tp ss"
  have "successively (\<lambda>s t. start_page s < start_page t) ss"
    using ch by (induction tp ss rule: chained.induct) simp_all
  then have "successively (<) (map start_page ss)" by (simp add: successively_map)
  then show ?thesis by (simp add: successively_conv_sorted_wrt)
qed





text \<open>
  Claim C2. In every result of \<open>calculate_page_ranges\<close> the sections come in strictly
  ascending \<open>start_page\<close> order, each section's \<open>end_page\<close> is the next section's
  \<open>start_page\<close> minus 1, and the final section ends at \<open>total_pages\<close>. A dropped item
  leaves no gap: it has the page index of the item after it.
\<close>

theorem sections_ascending_and_contiguous:
  "sorted_wrt (<) (map start_page (calculate_page_ranges bs total_pages))
   \<and> (\<forall>i. Suc i < length (calculate_page_ranges bs total_pages) \<longrightarrow>
         end_page (calculate_page_ranges bs total_pages ! i) =
           start_page (calculate_page_ranges bs total_pages ! Suc i) - 1)
   \<and> (calculate_page_ranges bs total_pages \<noteq> [] \<longrightarrow>
         end_page (last (calculate_page_ranges bs total_pages)) = total_pages)"
proof -
  have ch: "chained total_pages (calculate_page_ranges bs total_pages)"
    unfolding calculate_page_ranges_eq
    by (rule ranges_of_chained) (rule sorted_sort_key)
  show ?thesis
    using chained_sorted [OF ch] chained_nth [OF ch] chained_last [OF ch] by blast
qed

lemma dup_example_ranges:
  "calculate_page_ranges dup_example 10 =
     [\<lparr>name = ''B'', sec_full_path_name = ''B'', start_page = 4, end_page = 7\<rparr>,
      \<lparr>name = ''C'', sec_full_path_name = ''C'', start_page = 8, end_page = 10\<rparr>]"
  by (simp add: calculate_page_ranges_eq dup_example_def)

theorem sections_ascending_and_contiguous_witness:
  "Suc 0 < length (calculate_page_ranges dup_example 10)
   \<and> end_page (calculate_page_ranges dup_example 10 ! 0) =
       start_page (calculate_page_ranges dup_example 10 ! Suc 0) - 1
   \<and> calculate_page_ranges dup_example 10 \<noteq> []
   \<and> end_page (last (calculate_page_ranges dup_example 10)) = 10"
  using sections_ascending_and_contiguous [of dup_example 10]
  by (simp add: dup_example_ranges)







section \<open>The sections cover the document\<close>




section \<open>File names\<close>


lemma digit_value_digit_char: "d < 10 \<Longrightarrow> digit_value (digit_char d) = d"
proof -
  assume "d < 10"
  then have "d \<in> {0, 1, 2, 3, 4, 5, 6, 7, 8, 9}" by auto
  then show ?thesis
    by (auto simp: digit_char_def digit_value_def)
qed

lemma length_str_nat_pos: "Suc 0 \<le> length (str_nat n)"
  by (subst str_nat.simps) simp

lemma length_str_nat_mono: "m \<le> n \<Longrightarrow> length (str_nat m) \<le> length (str_nat n)"
proof (induction n arbitrary: m rule: str_nat.induct)
  case (1 n)
  show ?case
  proof (cases "n < 10")
    case True
    with "1.prems" have "m < 10" by simp
    with True show ?thesis by (simp add: str_nat.simps)
  next
    case False
    show ?thesis
    proof (cases "m < 10")
      case True
      then have "length (str_nat m) = 1" by (simp add: str_nat.simps)
      moreover have "Suc 0 \<le> length (str_nat n)" by (rule length_str_nat_pos)
      ultimately show ?thesis by (simp only: One_nat_def)
    next
      case m: False
      from "1.prems" have "m div 10 \<le> n div 10" by (rule div_le_mono)
      with "1.IH" False have "length (str_nat (m div 10)) \<le> length (str_nat (n div 10))" by simp
      with False m show ?thesis
        by (simp add: str_nat.simps [of m] str_nat.simps [of n])
    qed
  qed
qed

lemma dec_value_snoc: "dec_value (s @ [c]) = 10 * dec_value s + digit_value c"
  by (simp add: dec_value_def)

lemma dec_value_str_nat: "dec_value (str_nat n) = n"
proof (induction n rule: str_nat.induct)
  case (1 n)
  show ?case
  proof (cases "n < 10")
    case True
    then show ?thesis by (simp add: str_nat.simps digit_value_digit_char dec_value_def)
  next
    case False
    then have "dec_value (str_nat n) =
        10 * dec_value (str_nat (n div 10)) + digit_value (digit_char (n mod 10))"
      by (subst str_nat.simps) (simp add: dec_value_snoc)
    with False "1.IH" show ?thesis by (simp add: digit_value_digit_char)
  qed
qed

lemma foldl_zeros: "foldl (\<lambda>acc c. 10 * acc + digit_value c) 0 (replicate k CHR ''0'') = 0"
  by (induction k) (simp_all add: digit_value_def)

lemma dec_value_zero_pad: "dec_value (zero_pad w s) = dec_value s"
  by (simp add: zero_pad_def dec_value_def foldl_zeros)

lemma digit_char_in: "d < 10 \<Longrightarrow> digit_char d \<in> set ''0123456789''"
  unfolding digit_char_def by (rule nth_mem) simp

lemma str_nat_digits: "set (str_nat n) \<subseteq> set ''0123456789''"
proof (induction n rule: str_nat.induct)
  case (1 n)
  show ?case
  proof (cases "n < 10")
    case True
    then show ?thesis using digit_char_in [of n] by (subst str_nat.simps) simp
  next
    case False
    then show ?thesis using "1.IH" digit_char_in [of "n mod 10"] by (subst str_nat.simps) simp
  qed
qed

lemma zero_pad_digits: "set s \<subseteq> set ''0123456789'' \<Longrightarrow> set (zero_pad w s) \<subseteq> set ''0123456789''"
  by (auto simp: zero_pad_def)

lemma length_zero_pad: "length s \<le> w \<Longrightarrow> length (zero_pad w s) = w"
  by (simp add: zero_pad_def)

lemma split_section_filename:
  "split_section reader add_sequence max_level nd i sec = Inr (fname, pgs) \<Longrightarrow>
     fname = (if add_sequence then zero_pad nd (str_nat (i + 1)) @ ''_'' else [])
             @ clean_name (if max_level \<noteq> 1 then sec_full_path_name sec else name sec)
             @ ''.pdf''"
  by (auto simp: split_section_def Let_def split: if_splits)

lemma split_loop_nth:
  "k < length (fst (split_loop reader fs add_sequence max_level nd i secs)) \<Longrightarrow>
     k < length secs \<and>
     fst (split_loop reader fs add_sequence max_level nd i secs) ! k =
       split_section reader add_sequence max_level nd (i + k) (secs ! k)"
proof (induction secs arbitrary: i k)
  case Nil
  then show ?case by simp
next
  case (Cons sec rest)
  show ?case
  proof (cases "split_section reader add_sequence max_level nd i sec")
    case (Inl warning)
    show ?thesis
    proof (cases k)
      case 0
      with Inl show ?thesis by (simp add: split_beta)
    next
      case (Suc j)
      with Inl Cons.prems
      have "j < length (fst (split_loop reader fs add_sequence max_level nd (i + 1) rest))"
        by (simp add: split_beta)
      from Cons.IH [OF this] Inl Suc show ?thesis by (simp add: split_beta)
    qed
  next
    case (Inr written)
    show ?thesis
    proof (cases "write_error fs (fst written)")
      case (Some e)
      with Inr Cons.prems show ?thesis by simp
    next
      case None
      show ?thesis
      proof (cases k)
        case 0
        with Inr None show ?thesis by (simp add: split_beta)
      next
        case (Suc j)
        with Inr None Cons.prems
        have "j < length (fst (split_loop reader fs add_sequence max_level nd (i + 1) rest))"
          by (simp add: split_beta)
        from Cons.IH [OF this] Inr None Suc show ?thesis by (simp add: split_beta)
      qed
    qed
  qed
qed

lemma perform_pdf_split_nth:
  assumes "i < length (fst (perform_pdf_split reader sections fs add_sequence max_level))"
  shows "i < length sections \<and>
     fst (perform_pdf_split reader sections fs add_sequence max_level) ! i =
       split_section reader add_sequence max_level (length (str_nat (length sections))) i
         (sections ! i)"
proof (cases "makedirs_error fs")
  case None
  with assms have "i < length (fst (split_loop reader fs add_sequence max_level
      (length (str_nat (length sections))) 0 sections))"
    by (simp add: perform_pdf_split_def Let_def)
  from split_loop_nth [OF this] None show ?thesis
    by (simp add: perform_pdf_split_def Let_def)
next
  case (Some e)
  with assms show ?thesis by (simp add: perform_pdf_split_def)
qed

text \<open>
  Claim C6. For a section that \<open>perform_pdf_split\<close> writes (outcome \<open>Inr\<close> at position \<open>i\<close>,
  which is then a position of the sections it was given), the file name is the base name (\<open>full_path_name\<close> when
  \<open>max_level\<close> is not 1, else the plain name) with the characters of \<open>illegal_chars\<close>
  filtered out, followed by \<open>.pdf\<close>; with \<open>add_sequence\<close> it is preceded by an index and an
  underscore, where the index is a string of decimal digits that reads as \<open>i + 1\<close> and whose
  length is the number of digits of the section count. The position and the count are those
  of the list of sections the range calculator produced: a section skipped for its page
  range keeps its number.
\<close>

theorem output_filename_format:
  assumes "i < length (fst (perform_pdf_split reader sections fs add_sequence max_level))"
    and "fst (perform_pdf_split reader sections fs add_sequence max_level) ! i =
           Inr (fname, pgs)"
  shows "i < length sections
         \<and> fname =
           (if add_sequence
            then zero_pad (length (str_nat (length sections))) (str_nat (i + 1)) @ ''_''
            else [])
           @ clean_name (if max_level \<noteq> 1 then sec_full_path_name (sections ! i)
                         else name (sections ! i))
           @ ''.pdf''
         \<and> length (zero_pad (length (str_nat (length sections))) (str_nat (i + 1))) =
             length (str_nat (length sections))
         \<and> set (zero_pad (length (str_nat (length sections))) (str_nat (i + 1)))
             \<subseteq> set ''0123456789''
         \<and> dec_value (zero_pad (length (str_nat (length sections))) (str_nat (i + 1))) = i + 1
         \<and> dec_value (str_nat (length sections)) = length sections
         \<and> clean_name (if max_level \<noteq> 1 then sec_full_path_name (sections ! i)
                         else name (sections ! i)) =
             filter (\<lambda>c. c \<notin> set illegal_chars)
               (if max_level \<noteq> 1 then sec_full_path_name (sections ! i)
                else name (sections ! i))"
proof -
  let ?nd = "length (str_nat (length sections))"
  have len: "i < length sections"
    using perform_pdf_split_nth [OF assms(1)] by simp
  have "split_section reader add_sequence max_level ?nd i (sections ! i) = Inr (fname, pgs)"
    using perform_pdf_split_nth [OF assms(1)] assms(2) by simp
  then have a: "fname =
           (if add_sequence then zero_pad ?nd (str_nat (i + 1)) @ ''_'' else [])
           @ clean_name (if max_level \<noteq> 1 then sec_full_path_name (sections ! i)
                         else name (sections ! i))
           @ ''.pdf''"
    by (rule split_section_filename)
  have "i + 1 \<le> length sections" using len by simp
  then have "length (str_nat (i + 1)) \<le> ?nd" by (rule length_str_nat_mono)
  then have b: "length (zero_pad ?nd (str_nat (i + 1))) = ?nd" by (rule length_zero_pad)
  have c: "set (zero_pad ?nd (str_nat (i + 1))) \<subseteq> set ''0123456789''"
    by (rule zero_pad_digits) (rule str_nat_digits)
  have d: "dec_value (zero_pad ?nd (str_nat (i + 1))) = i + 1"
    by (simp only: dec_value_zero_pad dec_value_str_nat)
  from len a b c d show ?thesis
    by (simp only: dec_value_str_nat clean_name_def simp_thms)
qed


lemma named_sections_split:
  "fst (perform_pdf_split ten_pages named_sections working_fs True 0) =
     [Inr (''1_Intro.pdf'', [100, 101, 102]),
      Inr (''2_Part 1 - Q why.pdf'', [103, 104, 105, 106, 107, 108, 109])]"
  by (simp add: perform_pdf_split_def split_section_def named_sections_def ten_pages_def
      working_fs_def no_write_error_def str_nat.simps digit_char_def zero_pad_def clean_name_def
      illegal_chars_def Let_def upto.simps [of 0] upto.simps [of 1])

theorem output_filename_format_witness:
  "1 < length (fst (perform_pdf_split ten_pages named_sections working_fs True 0))
   \<and> fst (perform_pdf_split ten_pages named_sections working_fs True 0) ! 1 =
       Inr (''2_Part 1 - Q why.pdf'', [103, 104, 105, 106, 107, 108, 109])
   \<and> 1 < length named_sections
   \<and> ''2_Part 1 - Q why.pdf'' =
       (zero_pad (length (str_nat (length named_sections))) (str_nat (1 + 1)) @ ''_'')
       @ clean_name (sec_full_path_name (named_sections ! 1)) @ ''.pdf''
   \<and> length (zero_pad (length (str_nat (length named_sections))) (str_nat (1 + 1))) =
       length (str_nat (length named_sections))
   \<and> dec_value (zero_pad (length (str_nat (length named_sections))) (str_nat (1 + 1))) = 2"
proof -
  have h1: "1 < length (fst (perform_pdf_split ten_pages named_sections working_fs True 0))"
    by (simp add: named_sections_split)
  have h2: "fst (perform_pdf_split ten_pages named_sections working_fs True 0) ! 1 =
      Inr (''2_Part 1 - Q why.pdf'', [103, 104, 105, 106, 107, 108, 109])"
    by (simp add: named_sections_split)
  show ?thesis
    using h1 h2 output_filename_format [OF h1 h2]
    by simp
qed

section \<open>Properties of the outline flattener\<close>


lemma flatten_raise:
  "get_page_number reader pg = Inl e \<Longrightarrow>
     get_pdf_outline_info (Destination t pg # rest) reader cl ml pp =
       (fst (get_pdf_outline_info rest reader cl ml pp),
        SkippedBookmark t e # snd (get_pdf_outline_info rest reader cl ml pp))"
  by (simp add: Let_def split_beta)

lemma flatten_with_children:
  "get_page_number reader pg = Inr p \<Longrightarrow>
     get_pdf_outline_info (Destination t pg # Sublist sub # rest) reader cl ml pp =
       (\<lparr>title = t, page_index = p,
          full_path_name = (if pp \<noteq> [] then pp @ '' - '' @ t else t)\<rparr> #
          fst (if ml = 0 \<or> cl < ml
               then get_pdf_outline_info sub reader (cl + 1) ml
                      (if pp \<noteq> [] then pp @ '' - '' @ t else t)
               else ([], []))
          @ fst (get_pdf_outline_info rest reader cl ml pp),
        snd (if ml = 0 \<or> cl < ml
             then get_pdf_outline_info sub reader (cl + 1) ml
                    (if pp \<noteq> [] then pp @ '' - '' @ t else t)
             else ([], []))
          @ snd (get_pdf_outline_info rest reader cl ml pp))"
  by (simp add: Let_def split_beta)

lemma flatten_leaf:
  "get_page_number reader pg = Inr p \<Longrightarrow> no_sublist_head rest \<Longrightarrow>
     get_pdf_outline_info (Destination t pg # rest) reader cl ml pp =
       (\<lparr>title = t, page_index = p,
          full_path_name = (if pp \<noteq> [] then pp @ '' - '' @ t else t)\<rparr> #
          fst (get_pdf_outline_info rest reader cl ml pp),
        snd (get_pdf_outline_info rest reader cl ml pp))"
  by (cases rest rule: no_sublist_head.cases) (simp_all add: Let_def split_beta)

lemma flatten_append:
  "no_sublist_head rest \<Longrightarrow>
     get_pdf_outline_info (xs @ rest) reader cl ml pp =
       (fst (get_pdf_outline_info xs reader cl ml pp) @ fst (get_pdf_outline_info rest reader cl ml pp),
        snd (get_pdf_outline_info xs reader cl ml pp) @ snd (get_pdf_outline_info rest reader cl ml pp))"
proof (induction xs rule: length_induct)
  case (1 xs)
  note IH = "1.IH" [rule_format] and nsh = "1.prems"
  show ?case
  proof (cases xs)
    case Nil
    then show ?thesis by simp
  next
    case (Cons x xs')
    show ?thesis
    proof (cases x)
      case (Sublist sub)
      with Cons IH [of xs'] nsh show ?thesis by simp
    next
      case (Destination t pg)
      show ?thesis
      proof (cases "get_page_number reader pg")
        case (Inl e)
        have "get_pdf_outline_info (xs' @ rest) reader cl ml pp =
          (fst (get_pdf_outline_info xs' reader cl ml pp) @ fst (get_pdf_outline_info rest reader cl ml pp),
           snd (get_pdf_outline_info xs' reader cl ml pp) @ snd (get_pdf_outline_info rest reader cl ml pp))"
          using IH [of xs'] nsh Cons by simp
        then show ?thesis
          unfolding Cons Destination append_Cons by (simp only: flatten_raise [OF Inl]) simp
      next
        case (Inr p)
        show ?thesis
        proof (cases xs')
          case Nil
          then show ?thesis
            unfolding Cons Destination using nsh
            by (simp add: flatten_leaf [OF Inr] del: get_pdf_outline_info.simps(3))
        next
          case tail: (Cons y xs'')
          show ?thesis
          proof (cases y)
            case child: (Sublist sub)
            have "get_pdf_outline_info (xs'' @ rest) reader cl ml pp =
              (fst (get_pdf_outline_info xs'' reader cl ml pp)
                 @ fst (get_pdf_outline_info rest reader cl ml pp),
               snd (get_pdf_outline_info xs'' reader cl ml pp)
                 @ snd (get_pdf_outline_info rest reader cl ml pp))"
              using IH [of xs''] nsh Cons tail by simp
            then show ?thesis
              unfolding Cons Destination tail child append_Cons
              by (simp only: flatten_with_children [OF Inr]) simp
          next
            case sibling: (Destination t' pg')
            have a: "get_pdf_outline_info (xs' @ rest) reader cl ml pp =
              (fst (get_pdf_outline_info xs' reader cl ml pp)
                 @ fst (get_pdf_outline_info rest reader cl ml pp),
               snd (get_pdf_outline_info xs' reader cl ml pp)
                 @ snd (get_pdf_outline_info rest reader cl ml pp))"
              using IH [of xs'] nsh Cons by simp
            have b: "no_sublist_head (xs' @ rest)" "no_sublist_head xs'"
              using tail sibling by simp_all
            show ?thesis
              unfolding Cons Destination append_Cons
              by (simp only: flatten_leaf [OF Inr b(1)] flatten_leaf [OF Inr b(2)] a) simp
          qed
        qed
      qed
    qed
  qed
qed


lemma encode_outline_simps:
  "encode_outline [] = []"
  "encode_outline (n # ns) = encode_node n @ encode_outline ns"
  "encode_outline (ms @ ns) = encode_outline ms @ encode_outline ns"
  by (simp_all add: encode_outline_def)

lemma no_sublist_head_encode_node: "no_sublist_head (encode_node n @ rest)"
  by (cases n) simp

lemma no_sublist_head_encode: "no_sublist_head (encode_outline ns)"
  by (cases ns) (simp_all add: encode_outline_simps no_sublist_head_encode_node)

lemma broken_outline_flatten:
  "get_pdf_outline_info (encode_outline broken_outline) broken_reader 1 0 [] =
     ([\<lparr>title = ''B'', page_index = Some 5, full_path_name = ''B''\<rparr>],
      [SkippedBookmark ''A'' ''no such page''])"
  by (simp add: encode_outline_def broken_outline_def broken_reader_def fails_on_7_def index_of_def)

text \<open>
  Claim C3 does not hold of the code. Bookmark A has the child A.1 and is followed by B; the
  depth is unlimited (\<open>max_level = 0\<close>); the targets of A.1 and B resolve. When
  \<open>get_page_number\<close> raises for A, the result is B alone, with the one warning for A: the
  child A.1 is lost, because the handler leaves the child list unconsumed and the loop then
  passes over it. When the resolver returns \<open>None\<close> for A instead of raising, A.1 is kept.
\<close>

theorem children_of_failed_node_are_lost:
  "encode_outline broken_outline =
     [Destination ''A'' 7, Sublist [Destination ''A.1'' 2], Destination ''B'' 5]
   \<and> get_page_number broken_reader 7 = Inl ''no such page''
   \<and> get_page_number broken_reader 2 = Inr (Some 2)
   \<and> get_pdf_outline_info (encode_outline broken_outline) broken_reader 1 0 [] =
       ([\<lparr>title = ''B'', page_index = Some 5, full_path_name = ''B''\<rparr>],
        [SkippedBookmark ''A'' ''no such page''])
   \<and> get_page_number unresolving_reader 7 = Inr None
   \<and> get_pdf_outline_info (encode_outline broken_outline) unresolving_reader 1 0 [] =
       ([\<lparr>title = ''A'', page_index = None, full_path_name = ''A''\<rparr>,
         \<lparr>title = ''A.1'', page_index = Some 2, full_path_name = ''A - A.1''\<rparr>,
         \<lparr>title = ''B'', page_index = Some 5, full_path_name = ''B''\<rparr>], [])"
  by (simp add: broken_outline_flatten)
    (simp add: encode_outline_def broken_outline_def broken_reader_def fails_on_7_def
      unresolving_reader_def none_on_7_def index_of_def Let_def)

lemma preorder_simps:
  "preorder resolve dl cl pp [] = []"
  "preorder resolve dl cl pp (n # ns) = preorder_node resolve dl cl pp n @ preorder resolve dl cl pp ns"
  by (simp_all add: preorder_def)

lemma flatten_forest_from_nodes:
  assumes "\<And>n cl pp. n \<in> set ns \<Longrightarrow>
      get_pdf_outline_info (encode_node n) reader cl ml pp = (preorder_node resolve ml cl pp n, [])"
  shows "get_pdf_outline_info (encode_outline ns) reader cl ml pp = (preorder resolve ml cl pp ns, [])"
  using assms
proof (induction ns)
  case Nil
  show ?case by (simp add: encode_outline_simps preorder_simps)
next
  case (Cons n ns)
  have tl: "get_pdf_outline_info (encode_outline ns) reader cl ml pp = (preorder resolve ml cl pp ns, [])"
    using Cons.IH Cons.prems by simp
  have hd: "get_pdf_outline_info (encode_node n) reader cl ml pp = (preorder_node resolve ml cl pp n, [])"
    using Cons.prems by simp
  have "get_pdf_outline_info (encode_node n @ encode_outline ns) reader cl ml pp =
      (fst (get_pdf_outline_info (encode_node n) reader cl ml pp)
         @ fst (get_pdf_outline_info (encode_outline ns) reader cl ml pp),
       snd (get_pdf_outline_info (encode_node n) reader cl ml pp)
         @ snd (get_pdf_outline_info (encode_outline ns) reader cl ml pp))"
    by (rule flatten_append) (rule no_sublist_head_encode)
  then show ?case
    by (simp only: encode_outline_simps preorder_simps hd tl fst_conv snd_conv append_Nil)
qed

lemma flatten_node_preorder:
  "(\<forall>r \<in> set (node_refs n). get_page_number reader r = Inr (resolve r)) \<Longrightarrow>
     get_pdf_outline_info (encode_node n) reader cl ml pp = (preorder_node resolve ml cl pp n, [])"
proof (induction n arbitrary: cl pp)
  case (OutlineNode t pg kids)
  have res: "get_page_number reader pg = Inr (resolve pg)"
    using OutlineNode.prems by simp
  show ?case
  proof (cases "kids = []")
    case True
    have "no_sublist_head []" by simp
    from flatten_leaf [OF res this] True show ?thesis
      by (simp del: get_pdf_outline_info.simps(3))
  next
    case False
    have kids: "get_pdf_outline_info (encode_outline kids) reader cl' ml pp' =
        (preorder resolve ml cl' pp' kids, [])" for cl' pp'
    proof (rule flatten_forest_from_nodes)
      fix k cl'' pp''
      assume k: "k \<in> set kids"
      then have "\<forall>r \<in> set (node_refs k). get_page_number reader r = Inr (resolve r)"
        using OutlineNode.prems by auto
      with OutlineNode.IH [OF k] show "get_pdf_outline_info (encode_node k) reader cl'' ml pp'' =
          (preorder_node resolve ml cl'' pp'' k, [])" by simp
    qed
    have enc: "encode_node (OutlineNode t pg kids) = Destination t pg # Sublist (encode_outline kids) # []"
      using False by (simp add: encode_outline_def)
    show ?thesis
      unfolding enc
      using False
      by (simp add: flatten_with_children [OF res] kids preorder_def Let_def
          del: get_pdf_outline_info.simps(3))
  qed
qed

text \<open>
  Claim C5, as amended. When every target of the outline resolves, \<open>get_pdf_outline_info\<close>
  on the outline's item list returns, without warnings, the depth-first pre-order of the
  tree: a node's entry, then (when it has children and \<open>max_level\<close> is 0 or above the
  current level) the entries of its children, then the entries of its later siblings. The
  node's \<open>full_path_name\<close> is its title when the parent path is empty, which is the case for
  every top-level node, and the parent path, \<open>" - "\<close> and the title otherwise.
\<close>

theorem flatten_is_preorder:
  assumes "\<forall>r \<in> set (concat (map node_refs nodes)). get_page_number reader r = Inr (resolve r)"
  shows "get_pdf_outline_info (encode_outline nodes) reader current_level max_level parent_path =
           (preorder resolve max_level current_level parent_path nodes, [])
         \<and> preorder resolve max_level current_level parent_path (OutlineNode t pg kids # siblings) =
           \<lparr>title = t, page_index = resolve pg,
             full_path_name = (if parent_path = [] then t else parent_path @ '' - '' @ t)\<rparr>
           # (if kids \<noteq> [] \<and> (max_level = 0 \<or> current_level < max_level)
              then preorder resolve max_level (current_level + 1)
                     (if parent_path = [] then t else parent_path @ '' - '' @ t) kids
              else [])
           @ preorder resolve max_level current_level parent_path siblings
         \<and> preorder resolve max_level current_level parent_path [] = []"
proof -
  have "get_pdf_outline_info (encode_outline nodes) reader current_level max_level parent_path =
      (preorder resolve max_level current_level parent_path nodes, [])"
  proof (rule flatten_forest_from_nodes)
    fix n cl pp
    assume "n \<in> set nodes"
    then have "\<forall>r \<in> set (node_refs n). get_page_number reader r = Inr (resolve r)"
      using assms by auto
    then show "get_pdf_outline_info (encode_node n) reader cl max_level pp =
        (preorder_node resolve max_level cl pp n, [])"
      by (rule flatten_node_preorder)
  qed
  then show ?thesis
    by (simp add: preorder_def Let_def)
qed

lemma nested_outline_resolves:
  "\<forall>r \<in> set (concat (map node_refs nested_outline)). get_page_number ten_pages r = Inr (index_of r)"
  by (simp add: nested_outline_def ten_pages_def resolve_all_def index_of_def)

theorem flatten_is_preorder_witness:
  "concat (map node_refs nested_outline) = [0, 2, 5]
   \<and> get_page_number ten_pages 0 = Inr (index_of 0)
   \<and> get_page_number ten_pages 2 = Inr (index_of 2)
   \<and> get_page_number ten_pages 5 = Inr (index_of 5)
   \<and> get_pdf_outline_info (encode_outline nested_outline) ten_pages 1 0 [] =
       (preorder index_of 0 1 [] nested_outline, [])
   \<and> preorder index_of 0 1 [] nested_outline =
       [\<lparr>title = ''A'', page_index = Some 0, full_path_name = ''A''\<rparr>,
        \<lparr>title = ''A.1'', page_index = Some 2, full_path_name = ''A - A.1''\<rparr>,
        \<lparr>title = ''B'', page_index = Some 5, full_path_name = ''B''\<rparr>]"
  using nested_outline_resolves
    flatten_is_preorder [OF nested_outline_resolves, of 1 0 "[]" "''A''" 0 "[]" "[]"]
  by (simp add: nested_outline_def preorder_def index_of_def Let_def)

text \<open>
  Claim C5 as stated fails: the child A of a top-level bookmark with an empty title is not
  a top-level node, yet its \<open>full_path_name\<close> is the bare title \<open>A\<close>, not \<open>" - A"\<close>.
\<close>

theorem child_of_untitled_node_gets_bare_title:
  "encode_outline untitled_outline = [Destination [] 0, Sublist [Destination ''A'' 2]]
   \<and> get_pdf_outline_info (encode_outline untitled_outline) ten_pages 1 0 [] =
       ([\<lparr>title = [], page_index = Some 0, full_path_name = []\<rparr>,
         \<lparr>title = ''A'', page_index = Some 2, full_path_name = ''A''\<rparr>], [])
   \<and> preorder_by_level index_of 0 1 [] untitled_outline =
       [\<lparr>title = [], page_index = Some 0, full_path_name = []\<rparr>,
        \<lparr>title = ''A'', page_index = Some 2, full_path_name = '' - A''\<rparr>]
   \<and> fst (get_pdf_outline_info (encode_outline untitled_outline) ten_pages 1 0 []) \<noteq>
       preorder_by_level index_of 0 1 [] untitled_outline"
  by (simp add: encode_outline_def untitled_outline_def ten_pages_def resolve_all_def
      index_of_def preorder_by_level_def)

end
